theory Spec2Isabelle
  imports Complex_Main
begin

section \<open>Data model\<close>

text \<open>
  The program works on pandas objects. A float is a real number or NaN; NaN is \<open>None\<close>.
  The only arithmetic the verified code performs is the subtraction inside
  \<open>Series.diff\<close>; every other value is copied, so rounding plays no part.
  A \<open>Series\<close> is its list of (index label, value) rows, in index order; the labels are
  timestamps, written as natural numbers. A \<open>DataFrame\<close> is one index and its named
  columns.
\<close>

type_synonym fval = "real option"

type_synonym 'a series = "(nat \<times> 'a) list"

record 'a frame =
  findex :: "nat list"
  fcols :: "string \<rightharpoonup> 'a list"

text \<open>The bars table; only its column \<open>O\<close> (open prices) is read by the verified code.\<close>

record bars =
  bars_O :: "fval series"

datatype error = BarsNotFound | KeyError string | IndexingError

text \<open>A Python value held by \<open>dataobj\<close>: \<open>None\<close> or an object.\<close>

datatype 'v pyval = PyNone | PyObj 'v

section \<open>pandas primitives\<close>

text \<open>\<open>frame[name]\<close>: the column as a series over the frame's index; a missing column raises.\<close>

definition getcol :: "'a frame \<Rightarrow> string \<Rightarrow> error + 'a series" where
  "getcol f c = (case fcols f c of None \<Rightarrow> Inl (KeyError c)
                 | Some vs \<Rightarrow> Inr (zip (findex f) vs))"

text \<open>The value a series takes at a label after reindexing: NaN where the label is absent.\<close>

definition value_at :: "'a option series \<Rightarrow> nat \<Rightarrow> 'a option" where
  "value_at s t = (case map_of s t of None \<Rightarrow> None | Some v \<Rightarrow> v)"

text \<open>\<open>Series.shift(-1)\<close>: same index, each value taken from the next row, NaN in the last row.\<close>

definition shift_back :: "'a option series \<Rightarrow> 'a option series" where
  "shift_back s = zip (map fst s) (tl (map snd s) @ [None])"

text \<open>
  \<open>dp[s] = p[s]\<close> for a boolean series \<open>s\<close>: the mask is aligned to the index of the
  indexed series, which raises when a label has no mask value; the rows of \<open>dp\<close> whose
  mask is true then receive the value of \<open>p\<close> at their label, whatever it is.
\<close>

definition mask_assign :: "fval series \<Rightarrow> bool series \<Rightarrow> fval series \<Rightarrow> error + fval series" where
  "mask_assign dp s p =
     (if list_all (\<lambda>t. t \<in> set (map fst s)) (map fst p @ map fst dp)
      then Inr (map (\<lambda>(t, v). (t, if map_of s t = Some True then value_at p t else v)) dp)
      else Inl IndexingError)"

text \<open>\<open>a.combine_first(b)\<close>: over the union of both indexes, the value of \<open>a\<close> unless it is NaN.\<close>

definition union_index :: "nat list \<Rightarrow> nat list \<Rightarrow> nat list" where
  "union_index a b = sort (remdups (a @ b))"

definition combine_first :: "fval series \<Rightarrow> fval series \<Rightarrow> fval series" where
  "combine_first a b =
     map (\<lambda>t. (t, case value_at a t of Some v \<Rightarrow> Some v | None \<Rightarrow> value_at b t))
         (union_index (map fst a) (map fst b))"

section \<open>The Backtest class\<close>

definition ohlc_possible_fields :: "string list" where
  "ohlc_possible_fields = [''ohlc'', ''bars'', ''ohlcv'']"

definition sig_mask_int :: "string list" where
  "sig_mask_int = [''Buy'', ''Sell'', ''Short'', ''Cover'']"

definition pr_mask_int :: "string list" where
  "pr_mask_int = [''BuyPrice'', ''SellPrice'', ''ShortPrice'', ''CoverPrice'']"

subsection \<open>The bars lookup\<close>

text \<open>\<open>dict.get(k)\<close>: \<open>None\<close> when the key is absent.\<close>

definition dict_get :: "('k \<rightharpoonup> 'v pyval) \<Rightarrow> 'k \<Rightarrow> 'v pyval" where
  "dict_get d k = (case d k of None \<Rightarrow> PyNone | Some v \<Rightarrow> v)"

text \<open>The loop of the property \<open>ohlc\<close> over the candidate names, and the property itself.\<close>

fun ohlc_scan :: "string list \<Rightarrow> (string \<rightharpoonup> 'v pyval) \<Rightarrow> error + 'v" where
  "ohlc_scan [] d = Inl BarsNotFound"
| "ohlc_scan (possible_name # rest) d =
     (case dict_get d possible_name of
        PyObj s \<Rightarrow> Inr s
      | PyNone \<Rightarrow> ohlc_scan rest d)"

definition ohlc :: "(string \<rightharpoonup> 'v pyval) \<Rightarrow> error + 'v" where
  "ohlc d = ohlc_scan ohlc_possible_fields d"

subsection \<open>Construction\<close>

text \<open>\<open>str.lower\<close> on ASCII text.\<close>

definition lower_char :: "char \<Rightarrow> char" where
  "lower_char c =
     (case map_of (zip ''ABCDEFGHIJKLMNOPQRSTUVWXYZ'' ''abcdefghijklmnopqrstuvwxyz'') c of
        Some l \<Rightarrow> l
      | None \<Rightarrow> c)"

definition lower :: "string \<Rightarrow> string" where
  "lower k = map lower_char k"

text \<open>\<open>dict(pairs)\<close>: a later pair replaces an earlier one with the same key.\<close>

definition dict_of :: "('k \<times> 'v) list \<Rightarrow> ('k \<rightharpoonup> 'v)" where
  "dict_of items = map_of (rev items)"

text \<open>
  An instance: the lower-cased \<open>dataobj\<close>, the field names, the name, and the bars
  that \<open>__init__\<close> reads through the property \<open>ohlc\<close> when it builds the plot slicers.
\<close>

record 'v backtest =
  dataobj :: "string \<rightharpoonup> 'v pyval"
  sig_mask_ext :: "string list"
  pr_mask_ext :: "string list"
  name :: string
  ohlc_cached :: 'v

definition init :: "(string \<times> 'v pyval) list \<Rightarrow> string \<Rightarrow> string list \<Rightarrow> string list
                     \<Rightarrow> error + 'v backtest" where
  "init items nm signal_fields price_fields =
     (let d = dict_of (map (\<lambda>(k, v). (lower k, v)) items)
      in case ohlc d of
           Inl e \<Rightarrow> Inl e
         | Inr b \<Rightarrow> Inr \<lparr>dataobj = d, sig_mask_ext = signal_fields,
                         pr_mask_ext = price_fields, name = nm, ohlc_cached = b\<rparr>)"

subsection \<open>Prices\<close>

definition default_price :: "bars \<Rightarrow> fval series" where
  "default_price b = shift_back (bars_O b)"

text \<open>
  The loop of \<open>trade_price\<close> over the zipped (price name, signal name) pairs. The tables
  \<open>signals\<close> and \<open>prices\<close> are what \<open>parts.extract_frame\<close> returned; they are parameters.
\<close>

fun price_loop :: "(string \<times> string) list \<Rightarrow> bool frame \<Rightarrow> fval frame \<Rightarrow> fval series
                    \<Rightarrow> error + fval series" where
  "price_loop [] signals prices dp = Inr dp"
| "price_loop ((pf, sf) # rest) signals prices dp =
     (case getcol signals sf of
        Inl e \<Rightarrow> Inl e
      | Inr s \<Rightarrow>
          (case getcol prices pf of
             Inl e \<Rightarrow> Inl e
           | Inr p \<Rightarrow>
               (case mask_assign dp s p of
                  Inl e \<Rightarrow> Inl e
                | Inr dp' \<Rightarrow> price_loop rest signals prices dp')))"

definition trade_price :: "fval frame option \<Rightarrow> bool frame \<Rightarrow> bars \<Rightarrow> error + fval series" where
  "trade_price prices signals b =
     (case prices of
        None \<Rightarrow> Inr (shift_back (bars_O b))
      | Some pr \<Rightarrow>
          (case price_loop (zip pr_mask_int sig_mask_int) signals pr
                  (map (\<lambda>t. (t, None)) (findex pr)) of
             Inl e \<Rightarrow> Inl e
           | Inr dp \<Rightarrow> Inr (combine_first dp (default_price b))))"

text \<open>
  Reading a table at one timestamp: whether the signal column \<open>c\<close> is true at \<open>t\<close>, and
  the value of the price column \<open>c\<close> at \<open>t\<close>. They are used to state what the loop does.
\<close>

definition signal_at :: "bool frame \<Rightarrow> string \<Rightarrow> nat \<Rightarrow> bool" where
  "signal_at signals c t =
     (case getcol signals c of Inl e \<Rightarrow> False | Inr s \<Rightarrow> map_of s t = Some True)"

definition price_at :: "fval frame \<Rightarrow> string \<Rightarrow> nat \<Rightarrow> fval" where
  "price_at prices c t =
     (case getcol prices c of Inl e \<Rightarrow> None | Inr p \<Rightarrow> value_at p t)"

subsection \<open>Positions\<close>

text \<open>
  Modelled from the spec: \<open>parts.signals_to_positions\<close>, which the property
  \<open>positions\<close> calls, is not among the sources. The spec describes it as one
  left-to-right pass of a state machine over the four signal columns. The state is Flat,
  Long or Short, with a flag telling whether a transition has happened yet. At each bar
  the signals are read in the order Cover, Buy, Sell, Short, each one acting on the state
  the previous one left: Cover while Short gives Flat, Buy while not Long gives Long,
  Sell while Long gives Flat, Short while not Short gives Short; a signal that does not
  apply leaves the state as it is. The output at a bar is undefined before the first
  transition, then +1 while Long, -1 while Short, 0 while Flat.
\<close>

datatype pstate = Flat | Long | Short

record bar_signals =
  buy :: bool
  sell :: bool
  short :: bool
  cover :: bool

text \<open>
  Modelled from the spec: the four guarded transitions of section 4.2, on a state paired
  with the flag "a transition has happened".
\<close>

definition on_cover :: "bool \<Rightarrow> pstate \<times> bool \<Rightarrow> pstate \<times> bool" where
  "on_cover sg st = (if sg \<and> fst st = Short then (Flat, True) else st)"

definition on_buy :: "bool \<Rightarrow> pstate \<times> bool \<Rightarrow> pstate \<times> bool" where
  "on_buy sg st = (if sg \<and> fst st \<noteq> Long then (Long, True) else st)"

definition on_sell :: "bool \<Rightarrow> pstate \<times> bool \<Rightarrow> pstate \<times> bool" where
  "on_sell sg st = (if sg \<and> fst st = Long then (Flat, True) else st)"

definition on_short :: "bool \<Rightarrow> pstate \<times> bool \<Rightarrow> pstate \<times> bool" where
  "on_short sg st = (if sg \<and> fst st \<noteq> Short then (Short, True) else st)"

text \<open>
  Modelled from the spec: one bar, the signals read in the order Cover, Buy, Sell, Short.
\<close>

definition step :: "pstate \<times> bool \<Rightarrow> bar_signals \<Rightarrow> pstate \<times> bool" where
  "step st r = on_short (short r) (on_sell (sell r) (on_buy (buy r) (on_cover (cover r) st)))"

text \<open>
  Modelled from the spec: the output value of a state, undefined before the first transition.
\<close>

definition state_value :: "pstate \<Rightarrow> real" where
  "state_value q = (case q of Flat \<Rightarrow> 0 | Long \<Rightarrow> 1 | Short \<Rightarrow> - 1)"

definition position_value :: "pstate \<times> bool \<Rightarrow> fval" where
  "position_value st = (if snd st then Some (state_value (fst st)) else None)"

text \<open>
  Modelled from the spec: the single left-to-right pass; the output at a bar is the value
  of the state after that bar.
\<close>

fun reconstruct :: "pstate \<times> bool \<Rightarrow> bar_signals list \<Rightarrow> fval list" where
  "reconstruct st [] = []"
| "reconstruct st (r # rs) = position_value (step st r) # reconstruct (step st r) rs"

text \<open>
  Modelled from the spec: \<open>signals_to_positions\<close> reads the four columns named by the
  mask (a missing column raises) and returns the positions over the index of the signals.
\<close>

definition signal_rows :: "bool list \<Rightarrow> bool list \<Rightarrow> bool list \<Rightarrow> bool list \<Rightarrow> bar_signals list" where
  "signal_rows bs ss shs cs =
     map (\<lambda>(b, s, sh, c). \<lparr>buy = b, sell = s, short = sh, cover = c\<rparr>)
         (zip bs (zip ss (zip shs cs)))"

definition signals_to_positions :: "bool frame \<Rightarrow> string \<Rightarrow> string \<Rightarrow> string \<Rightarrow> string
                                     \<Rightarrow> error + fval series" where
  "signals_to_positions signals long_en long_ex short_en short_ex =
     (case getcol signals long_en of Inl e \<Rightarrow> Inl e | Inr bs \<Rightarrow>
     (case getcol signals long_ex of Inl e \<Rightarrow> Inl e | Inr ss \<Rightarrow>
     (case getcol signals short_en of Inl e \<Rightarrow> Inl e | Inr shs \<Rightarrow>
     (case getcol signals short_ex of Inl e \<Rightarrow> Inl e | Inr cs \<Rightarrow>
        Inr (zip (findex signals)
               (reconstruct (Flat, False)
                  (signal_rows (map snd bs) (map snd ss) (map snd shs) (map snd cs))))))))"

text \<open>The property \<open>positions\<close>: the mask is \<open>_sig_mask_int\<close>.\<close>

definition positions :: "bool frame \<Rightarrow> error + fval series" where
  "positions signals = signals_to_positions signals ''Buy'' ''Sell'' ''Short'' ''Cover''"

subsection \<open>Trades\<close>

record trade =
  ts :: nat
  pos :: fval
  price :: fval
  vol :: fval

text \<open>\<open>Series.diff()\<close>: each value minus the one before it; NaN in the first row.\<close>

definition fsub :: "fval \<Rightarrow> fval \<Rightarrow> fval" where
  "fsub a b = (case (a, b) of (Some x, Some y) \<Rightarrow> Some (x - y) | _ \<Rightarrow> None)"

fun diff_from :: "fval \<Rightarrow> fval list \<Rightarrow> fval list" where
  "diff_from prev [] = []"
| "diff_from prev (x # xs) = fsub x prev # diff_from x xs"

definition diff :: "fval list \<Rightarrow> fval list" where
  "diff xs = diff_from None xs"

text \<open>\<open>DataFrame.dropna()\<close> on the columns \<open>pos\<close> and \<open>price\<close>: a row with a NaN goes.\<close>

definition dropna :: "(nat \<times> fval \<times> fval) list \<Rightarrow> (nat \<times> fval \<times> fval) list" where
  "dropna t = filter (\<lambda>(i, p, q). p \<noteq> None \<and> q \<noteq> None) t"

text \<open>
  The body of the property \<open>trades\<close>, on the values of the properties \<open>positions\<close>
  and \<open>trade_price\<close>: the frame takes the index of the positions, the price column is
  the trade price aligned to that index.
\<close>

definition trades :: "fval series \<Rightarrow> fval series \<Rightarrow> trade list" where
  "trades ps tp =
     (let t = map (\<lambda>(i, p). (i, p, value_at tp i)) ps;
          t' = dropna t;
          v = diff (map (\<lambda>(i, p, q). p) t')
      in map (\<lambda>((i, p, q), d). \<lparr>ts = i, pos = p, price = q, vol = d\<rparr>) (zip t' v))"

text \<open>The property \<open>trades\<close> of an instance, with the failures of the properties it reads.\<close>

definition backtest_trades :: "fval frame option \<Rightarrow> bool frame \<Rightarrow> bars \<Rightarrow> error + trade list" where
  "backtest_trades prices signals b =
     (case positions signals of
        Inl e \<Rightarrow> Inl e
      | Inr ps \<Rightarrow>
          (case trade_price prices signals b of
             Inl e \<Rightarrow> Inl e
           | Inr tp \<Rightarrow> Inr (trades ps tp)))"

section \<open>The bars lookup\<close>

lemma ohlc_unfold:
  "ohlc d =
     (case dict_get d ''ohlc'' of PyObj s \<Rightarrow> Inr s
      | PyNone \<Rightarrow>
         (case dict_get d ''bars'' of PyObj s \<Rightarrow> Inr s
          | PyNone \<Rightarrow>
             (case dict_get d ''ohlcv'' of PyObj s \<Rightarrow> Inr s
              | PyNone \<Rightarrow> Inl BarsNotFound)))"
  by (simp add: ohlc_def ohlc_possible_fields_def split: pyval.splits)

lemma dict_get_absent: "k \<notin> dom d \<Longrightarrow> dict_get d k = PyNone"
  by (auto simp: dict_get_def dom_def)

lemma dom_dict_of: "dom (dict_of items) = fst ` set items"
  by (simp add: dict_of_def dom_map_of_conv_image_fst)

lemma dom_lowered: "dom (dict_of (map (\<lambda>(k, v). (lower k, v)) items)) = lower ` fst ` set items"
  by (force simp: dom_dict_of)

lemma init_fails:
  assumes "ohlc (dict_of (map (\<lambda>(k, v). (lower k, v)) items)) = Inl e"
  shows "init items nm signal_fields price_fields = Inl e"
  using assms by (simp add: init_def)

text \<open>
  Claim C6. The property \<open>ohlc\<close> tries the names \<open>ohlc\<close>, \<open>bars\<close>, \<open>ohlcv\<close> in
  this order and returns the first object that \<open>dataobj\<close> holds under one of them (a name
  bound to \<open>None\<close> counts as not found). When none of the three names is a key, it raises;
  and since \<open>__init__\<close> reads the property, no instance is built from items whose
  lower-cased keys contain none of the names.
\<close>

theorem ohlc_first_candidate:
  "(dict_get d ''ohlc'' = PyObj v \<longrightarrow> ohlc d = Inr v) \<and>
   (dict_get d ''ohlc'' = PyNone \<and> dict_get d ''bars'' = PyObj v \<longrightarrow> ohlc d = Inr v) \<and>
   (dict_get d ''ohlc'' = PyNone \<and> dict_get d ''bars'' = PyNone \<and> dict_get d ''ohlcv'' = PyObj v
      \<longrightarrow> ohlc d = Inr v) \<and>
   (''ohlc'' \<notin> dom d \<and> ''bars'' \<notin> dom d \<and> ''ohlcv'' \<notin> dom d \<longrightarrow> ohlc d = Inl BarsNotFound) \<and>
   ((\<forall>k \<in> set ohlc_possible_fields. k \<notin> lower ` fst ` set items)
      \<longrightarrow> init items nm signal_fields price_fields = Inl BarsNotFound)"
proof (intro conjI impI)
  assume "\<forall>k \<in> set ohlc_possible_fields. k \<notin> lower ` fst ` set items"
  then have "\<forall>k \<in> set ohlc_possible_fields. k \<notin> dom (dict_of (map (\<lambda>(k, v). (lower k, v)) items))"
    by (simp only: dom_lowered)
  then have "ohlc (dict_of (map (\<lambda>(k, v). (lower k, v)) items)) = Inl BarsNotFound"
    by (simp add: ohlc_unfold ohlc_possible_fields_def dict_get_absent)
  then show "init items nm signal_fields price_fields = Inl BarsNotFound"
    by (rule init_fails)
qed (simp_all add: ohlc_unfold dict_get_absent)

theorem ohlc_first_candidate_witness:
  "ohlc [''ohlc'' \<mapsto> PyObj (1::nat), ''bars'' \<mapsto> PyObj 2] = Inr 1 \<and>
   ohlc [''ohlc'' \<mapsto> PyNone, ''bars'' \<mapsto> PyObj (2::nat), ''ohlcv'' \<mapsto> PyObj 3] = Inr 2 \<and>
   ohlc [''buy'' \<mapsto> PyObj (0::nat), ''ohlcv'' \<mapsto> PyObj 3] = Inr 3 \<and>
   ohlc [''buy'' \<mapsto> PyObj (0::nat)] = Inl BarsNotFound \<and>
   init [(''Buy'', PyObj (0::nat)), (''Prices'', PyObj 5)] ''demo''
        [''buy'', ''sell'', ''short'', ''cover'']
        [''buyprice'', ''sellprice'', ''shortprice'', ''coverprice''] = Inl BarsNotFound"
proof -
  let ?d1 = "[''ohlc'' \<mapsto> PyObj (1::nat), ''bars'' \<mapsto> PyObj 2]"
  let ?d2 = "[''ohlc'' \<mapsto> PyNone, ''bars'' \<mapsto> PyObj (2::nat), ''ohlcv'' \<mapsto> PyObj 3]"
  let ?d3 = "[''buy'' \<mapsto> PyObj (0::nat), ''ohlcv'' \<mapsto> PyObj 3]"
  let ?d4 = "[''buy'' \<mapsto> PyObj (0::nat)]"
  let ?items = "[(''Buy'', PyObj (0::nat)), (''Prices'', PyObj 5)]"
  have 1: "dict_get ?d1 ''ohlc'' = PyObj 1" by (simp add: dict_get_def)
  have 2: "dict_get ?d2 ''ohlc'' = PyNone \<and> dict_get ?d2 ''bars'' = PyObj 2"
    by (simp add: dict_get_def)
  have 3: "dict_get ?d3 ''ohlc'' = PyNone \<and> dict_get ?d3 ''bars'' = PyNone
           \<and> dict_get ?d3 ''ohlcv'' = PyObj 3"
    by (simp add: dict_get_def)
  have 4: "''ohlc'' \<notin> dom ?d4 \<and> ''bars'' \<notin> dom ?d4 \<and> ''ohlcv'' \<notin> dom ?d4" by simp
  have 5: "\<forall>k \<in> set ohlc_possible_fields. k \<notin> lower ` fst ` set ?items"
    by (simp add: ohlc_possible_fields_def lower_def lower_char_def)
  have a: "ohlc ?d1 = Inr 1"
    by (rule ohlc_first_candidate [THEN conjunct1, THEN mp, OF 1])
  have b: "ohlc ?d2 = Inr 2"
    by (rule ohlc_first_candidate [THEN conjunct2, THEN conjunct1, THEN mp, OF 2])
  have c: "ohlc ?d3 = Inr 3"
    by (rule ohlc_first_candidate [THEN conjunct2, THEN conjunct2, THEN conjunct1, THEN mp, OF 3])
  have d: "ohlc ?d4 = Inl BarsNotFound"
    by (rule ohlc_first_candidate
          [THEN conjunct2, THEN conjunct2, THEN conjunct2, THEN conjunct1, THEN mp, OF 4])
  have e: "init ?items ''demo'' [''buy'', ''sell'', ''short'', ''cover'']
        [''buyprice'', ''sellprice'', ''shortprice'', ''coverprice''] = Inl BarsNotFound"
    by (rule ohlc_first_candidate
          [THEN conjunct2, THEN conjunct2, THEN conjunct2, THEN conjunct2, THEN mp, OF 5])
  show ?thesis using a b c d e by (intro conjI)
qed

section \<open>The default price\<close>

lemma shift_back_index: "map fst (shift_back s) = map fst s"
  by (cases s) (simp_all add: shift_back_def)

lemma shift_back_nth:
  assumes "Suc i < length s"
  shows "snd (shift_back s ! i) = snd (s ! Suc i)"
proof -
  have "i < length (tl (map snd s) @ [None])" "i < length (map fst s)"
       "i < length (tl (map snd s))"
    using assms by simp_all
  then show ?thesis using assms
    by (simp add: shift_back_def nth_append nth_tl)
qed

lemma shift_back_last:
  assumes "s \<noteq> []"
  shows "snd (last (shift_back s)) = None"
proof -
  have len: "length (map fst s) = length (tl (map snd s) @ [None])"
    using assms by (cases s) simp_all
  have ne: "zip (map fst s) (tl (map snd s) @ [None]) \<noteq> []"
    using assms by (cases s) simp_all
  have "last (zip (map fst s) (tl (map snd s) @ [None]))
        = (last (map fst s), last (tl (map snd s) @ [None]))"
    using len ne assms by (simp add: last_zip)
  then show ?thesis by (simp add: shift_back_def)
qed

text \<open>
  Claim C3. When the prices table is absent, the trade price is the default price series
  itself, whatever the signals are; the default price keeps the index of the open column,
  takes at each bar the open of the next bar, and is undefined at the last bar.
\<close>

theorem trade_price_without_prices:
  "trade_price None signals b = Inr (default_price b) \<and>
   map fst (default_price b) = map fst (bars_O b) \<and>
   (\<forall>i. Suc i < length (bars_O b) \<longrightarrow> snd (default_price b ! i) = snd (bars_O b ! Suc i)) \<and>
   (bars_O b \<noteq> [] \<longrightarrow> snd (last (default_price b)) = None)"
  by (simp add: trade_price_def default_price_def shift_back_index shift_back_nth shift_back_last)

theorem trade_price_without_prices_witness:
  "Suc 0 < length (bars_O \<lparr>bars_O = [(0, Some 9), (1, Some 10), (2, Some 11)]\<rparr>) \<and>
   trade_price None \<lparr>findex = [], fcols = Map.empty\<rparr>
       \<lparr>bars_O = [(0, Some 9), (1, Some 10), (2, Some 11)]\<rparr>
     = Inr (default_price \<lparr>bars_O = [(0, Some 9), (1, Some 10), (2, Some 11)]\<rparr>) \<and>
   snd (default_price \<lparr>bars_O = [(0, Some 9), (1, Some 10), (2, Some 11)]\<rparr> ! 0) = Some 10 \<and>
   snd (last (default_price \<lparr>bars_O = [(0, Some 9), (1, Some 10), (2, Some 11)]\<rparr>)) = None"
proof -
  let ?b = "\<lparr>bars_O = [(0, Some 9), (1, Some 10), (2, Some (11::real))]\<rparr>"
  let ?sg = "\<lparr>findex = [], fcols = Map.empty\<rparr> :: bool frame"
  note T = trade_price_without_prices [of "?sg" "?b"]
  have i: "Suc 0 < length (bars_O ?b)" by simp
  have ne: "bars_O ?b \<noteq> []" by simp
  have 1: "trade_price None ?sg ?b = Inr (default_price ?b)"
    by (rule T [THEN conjunct1])
  have "snd (default_price ?b ! 0) = snd (bars_O ?b ! Suc 0)"
    by (rule T [THEN conjunct2, THEN conjunct2, THEN conjunct1, THEN spec, THEN mp, OF i])
  then have 2: "snd (default_price ?b ! 0) = Some 10" by simp
  have 3: "snd (last (default_price ?b)) = None"
    by (rule T [THEN conjunct2, THEN conjunct2, THEN conjunct2, THEN mp, OF ne])
  show ?thesis using i 1 2 3 by (intro conjI)
qed

section \<open>The price resolver\<close>

lemma map_of_map_values:
  "map_of (map (\<lambda>(k, v). (k, f k v)) xs) t = map_option (f t) (map_of xs t)"
  by (induction xs) auto

lemma value_at_absent: "t \<notin> set (map fst s) \<Longrightarrow> value_at s t = None"
  by (simp add: value_at_def map_of_eq_None_iff [THEN iffD2])

lemma mask_assign_value_at:
  assumes "mask_assign dp s p = Inr dp'"
  shows "value_at dp' t =
           (if t \<in> set (map fst dp) \<and> map_of s t = Some True then value_at p t
            else value_at dp t)"
    and "map fst dp' = map fst dp"
proof -
  from assms have dp': "dp' = map (\<lambda>(t, v). (t, if map_of s t = Some True then value_at p t else v)) dp"
    by (simp add: mask_assign_def split: if_splits)
  show "map fst dp' = map fst dp" by (simp add: dp' case_prod_unfold)
  show "value_at dp' t =
           (if t \<in> set (map fst dp) \<and> map_of s t = Some True then value_at p t
            else value_at dp t)"
  proof (cases "map_of dp t")
    case None
    then have "t \<notin> set (map fst dp)" by (simp add: map_of_eq_None_iff)
    with None show ?thesis by (simp add: dp' value_at_def map_of_map_values)
  next
    case (Some v)
    then have "t \<in> set (map fst dp)" by (metis map_of_eq_None_iff option.distinct(1) set_map)
    with Some show ?thesis by (simp add: dp' value_at_def map_of_map_values)
  qed
qed

lemma price_loop_value_at:
  assumes "price_loop prs sg pr dp = Inr dp'"
  shows "value_at dp' t =
           foldl (\<lambda>acc (pf, sf). if t \<in> set (map fst dp) \<and> signal_at sg sf t
                                  then price_at pr pf t else acc)
                 (value_at dp t) prs"
  using assms
proof (induction prs arbitrary: dp)
  case Nil
  then show ?case by simp
next
  case (Cons a prs)
  obtain pf sf where a: "a = (pf, sf)" by (cases a)
  from Cons.prems a obtain s p dp1 where
    s: "getcol sg sf = Inr s" and p: "getcol pr pf = Inr p" and
    m: "mask_assign dp s p = Inr dp1" and rest: "price_loop prs sg pr dp1 = Inr dp'"
    by (auto split: sum.splits)
  note ma = mask_assign_value_at [OF m]
  have v1: "value_at dp1 t = (if t \<in> set (map fst dp) \<and> signal_at sg sf t
                              then price_at pr pf t else value_at dp t)"
    using ma(1) [of t] by (simp add: signal_at_def price_at_def s p)
  from Cons.IH [OF rest] have
    "value_at dp' t =
       foldl (\<lambda>acc (pf, sf). if t \<in> set (map fst dp1) \<and> signal_at sg sf t
                              then price_at pr pf t else acc)
             (value_at dp1 t) prs" .
  then show ?case by (simp add: a v1 ma(2))
qed

lemma combine_first_value_at:
  "value_at (combine_first x y) t =
     (case value_at x t of Some v \<Rightarrow> Some v | None \<Rightarrow> value_at y t)"
proof (cases "t \<in> set (map fst x) \<union> set (map fst y)")
  case True
  then have "t \<in> set (union_index (map fst x) (map fst y))" by (simp add: union_index_def)
  then have "map_of (combine_first x y) t =
     Some (case value_at x t of Some v \<Rightarrow> Some v | None \<Rightarrow> value_at y t)"
    unfolding combine_first_def by (simp add: map_of_map_restrict restrict_map_def)
  then show ?thesis by (simp add: value_at_def)
next
  case False
  then have "t \<notin> set (union_index (map fst x) (map fst y))" by (simp add: union_index_def)
  then have "map_of (combine_first x y) t = None"
    unfolding combine_first_def by (simp add: map_of_map_restrict restrict_map_def)
  moreover from False have "value_at x t = None" "value_at y t = None"
    by (simp_all add: value_at_absent)
  ultimately show ?thesis by (simp add: value_at_def)
qed

lemma trade_price_value_at:
  assumes "trade_price (Some pr) sg b = Inr r"
  shows "value_at r t =
     (case (if t \<in> set (findex pr) then
              (if signal_at sg ''Cover'' t then price_at pr ''CoverPrice'' t
               else if signal_at sg ''Short'' t then price_at pr ''ShortPrice'' t
               else if signal_at sg ''Sell'' t then price_at pr ''SellPrice'' t
               else if signal_at sg ''Buy'' t then price_at pr ''BuyPrice'' t
               else None)
            else None) of
        Some v \<Rightarrow> Some v
      | None \<Rightarrow> value_at (default_price b) t)"
proof -
  let ?dp0 = "map (\<lambda>t. (t, None :: fval)) (findex pr)"
  from assms obtain dp where
    loop: "price_loop (zip pr_mask_int sig_mask_int) sg pr ?dp0 = Inr dp" and
    r: "r = combine_first dp (default_price b)"
    by (auto simp: trade_price_def split: sum.splits)
  have idx: "map fst ?dp0 = findex pr" by (simp add: comp_def)
  have v0: "value_at ?dp0 t = None"
    by (simp add: value_at_def map_of_map_restrict restrict_map_def comp_def)
  have "value_at dp t =
     (if t \<in> set (findex pr) then
              (if signal_at sg ''Cover'' t then price_at pr ''CoverPrice'' t
               else if signal_at sg ''Short'' t then price_at pr ''ShortPrice'' t
               else if signal_at sg ''Sell'' t then price_at pr ''SellPrice'' t
               else if signal_at sg ''Buy'' t then price_at pr ''BuyPrice'' t
               else None)
            else None)"
    unfolding price_loop_value_at [OF loop, of t] idx v0
    by (simp add: pr_mask_int_def sig_mask_int_def)
  then show ?thesis by (simp only: r combine_first_value_at)
qed


lemma price_loop_index:
  "price_loop prs sg pr dp = Inr dp' \<Longrightarrow> map fst dp' = map fst dp"
proof (induction prs arbitrary: dp)
  case Nil
  then show ?case by simp
next
  case (Cons a prs)
  obtain pf sf where a: "a = (pf, sf)" by (cases a)
  from Cons.prems a obtain s p dp1 where
    m: "mask_assign dp s p = Inr dp1" and rest: "price_loop prs sg pr dp1 = Inr dp'"
    by (auto split: sum.splits)
  from Cons.IH [OF rest] mask_assign_value_at(2) [OF m] show ?case by simp
qed

lemmas price_eval = trade_price_def pr_mask_int_def sig_mask_int_def getcol_def mask_assign_def
  value_at_def combine_first_def union_index_def default_price_def shift_back_def
  signal_at_def price_at_def

text \<open>
  Claim C4, as amended. When a prices table is present and \<open>trade_price\<close> returns, the
  resolved series covers the union of the prices index and the bars index. At a timestamp
  of the prices index where some signal is true, the pair that counts is the last one in
  the order (BuyPrice, SellPrice, ShortPrice, CoverPrice) whose signal is true: when its
  explicit price is defined, the resolved price is that price. At every other timestamp
  (no signal true, that pair's price missing, or a timestamp outside the prices index)
  the resolved price is the default price. The instance that follows is the scenario of the claim:
  buyprice = [NaN, 9.5, NaN, NaN] with buy = [F, T, F, F] resolves to 9.5 at t1 and to
  the default price elsewhere.
\<close>

theorem trade_price_resolved:
  assumes "trade_price (Some pr) sg b = Inr r"
  shows "map fst r = union_index (findex pr) (map fst (bars_O b)) \<and>
     value_at r t =
     (case (if t \<in> set (findex pr) then
              (if signal_at sg ''Cover'' t then price_at pr ''CoverPrice'' t
               else if signal_at sg ''Short'' t then price_at pr ''ShortPrice'' t
               else if signal_at sg ''Sell'' t then price_at pr ''SellPrice'' t
               else if signal_at sg ''Buy'' t then price_at pr ''BuyPrice'' t
               else None)
            else None) of
        Some v \<Rightarrow> Some v
      | None \<Rightarrow> value_at (default_price b) t)"
proof
  let ?dp0 = "map (\<lambda>t. (t, None :: fval)) (findex pr)"
  from assms obtain dp where
    loop: "price_loop (zip pr_mask_int sig_mask_int) sg pr ?dp0 = Inr dp" and
    r: "r = combine_first dp (default_price b)"
    by (auto simp: trade_price_def split: sum.splits)
  have "map fst dp = findex pr" using price_loop_index [OF loop] by (simp add: comp_def)
  then show "map fst r = union_index (findex pr) (map fst (bars_O b))"
    by (simp add: r combine_first_def comp_def default_price_def shift_back_index)
next
  show "value_at r t =
     (case (if t \<in> set (findex pr) then
              (if signal_at sg ''Cover'' t then price_at pr ''CoverPrice'' t
               else if signal_at sg ''Short'' t then price_at pr ''ShortPrice'' t
               else if signal_at sg ''Sell'' t then price_at pr ''SellPrice'' t
               else if signal_at sg ''Buy'' t then price_at pr ''BuyPrice'' t
               else None)
            else None) of
        Some v \<Rightarrow> Some v
      | None \<Rightarrow> value_at (default_price b) t)"
    using assms by (rule trade_price_value_at)
qed

theorem trade_price_resolved_witness:
  "trade_price (Some \<lparr>findex = [0, 1, 2, 3],
              fcols = [''BuyPrice'' \<mapsto> [None, Some (19 / 2), None, None],
                       ''SellPrice'' \<mapsto> [None, None, None, None],
                       ''ShortPrice'' \<mapsto> [None, None, None, None],
                       ''CoverPrice'' \<mapsto> [None, None, None, None]]\<rparr>) \<lparr>findex = [0, 1, 2, 3],
              fcols = [''Buy'' \<mapsto> [False, True, False, False],
                       ''Sell'' \<mapsto> [False, False, False, False],
                       ''Short'' \<mapsto> [False, False, False, False],
                       ''Cover'' \<mapsto> [False, False, False, False]]\<rparr> \<lparr>bars_O = [(0, Some 9), (1, Some 10), (2, Some 11), (3, Some 12)]\<rparr>
     = Inr [(0, Some 10), (1, Some (19 / 2)), (2, Some 12), (3, None)] \<and>
   value_at [(0, Some 10), (1, Some (19 / 2)), (2, Some 12), (3, None :: fval)] 1 = Some (19 / 2) \<and>
   value_at [(0, Some 10), (1, Some (19 / 2)), (2, Some 12), (3, None :: fval)] 0
     = value_at (default_price \<lparr>bars_O = [(0, Some 9), (1, Some 10), (2, Some 11), (3, Some 12)]\<rparr>) 0 \<and>
   value_at [(0, Some 10), (1, Some (19 / 2)), (2, Some 12), (3, None :: fval)] 2
     = value_at (default_price \<lparr>bars_O = [(0, Some 9), (1, Some 10), (2, Some 11), (3, Some 12)]\<rparr>) 2 \<and>
   value_at [(0, Some 10), (1, Some (19 / 2)), (2, Some 12), (3, None :: fval)] 3
     = value_at (default_price \<lparr>bars_O = [(0, Some 9), (1, Some 10), (2, Some 11), (3, Some 12)]\<rparr>) 3"
proof -
  let ?P = "\<lparr>findex = [0, 1, 2, 3],
              fcols = [''BuyPrice'' \<mapsto> [None, Some (19 / 2), None, None],
                       ''SellPrice'' \<mapsto> [None, None, None, None],
                       ''ShortPrice'' \<mapsto> [None, None, None, None],
                       ''CoverPrice'' \<mapsto> [None, None, None, None]]\<rparr>"
  let ?S = "\<lparr>findex = [0, 1, 2, 3],
              fcols = [''Buy'' \<mapsto> [False, True, False, False],
                       ''Sell'' \<mapsto> [False, False, False, False],
                       ''Short'' \<mapsto> [False, False, False, False],
                       ''Cover'' \<mapsto> [False, False, False, False]]\<rparr>"
  let ?B = "\<lparr>bars_O = [(0, Some 9), (1, Some 10), (2, Some 11), (3, Some 12)]\<rparr>"
  let ?R = "[(0::nat, Some 10), (1, Some (19 / 2)), (2, Some 12), (3, None :: fval)]"
  have ret: "trade_price (Some ?P) ?S ?B = Inr ?R" by (simp add: price_eval)
  note T = trade_price_resolved [OF ret, THEN conjunct2]
  have 1: "value_at ?R 1 = Some (19 / 2)"
    unfolding T [of 1] by (simp add: signal_at_def price_at_def getcol_def value_at_def)
  have 0: "value_at ?R 0 = value_at (default_price ?B) 0"
    unfolding T [of 0] by (simp add: signal_at_def price_at_def getcol_def)
  have 2: "value_at ?R 2 = value_at (default_price ?B) 2"
    unfolding T [of 2] by (simp add: signal_at_def price_at_def getcol_def)
  have 3: "value_at ?R 3 = value_at (default_price ?B) 3"
    unfolding T [of 3] by (simp add: signal_at_def price_at_def getcol_def)
  show ?thesis using ret 1 0 2 3 by (intro conjI)
qed

text \<open>
  The claim C4 as stated fails where two signals are true: Buy is true with the explicit
  price 9.5, Sell is true with a missing price, and the resolved price is the default 11.
\<close>

theorem trade_price_explicit_lost_counterexample:
  "signal_at \<lparr>findex = [0], fcols = [''Buy'' \<mapsto> [True], ''Sell'' \<mapsto> [True],
              ''Short'' \<mapsto> [False], ''Cover'' \<mapsto> [False]]\<rparr> ''Buy'' 0 \<and>
   price_at \<lparr>findex = [0], fcols = [''BuyPrice'' \<mapsto> [Some (19 / 2)], ''SellPrice'' \<mapsto> [None],
              ''ShortPrice'' \<mapsto> [None], ''CoverPrice'' \<mapsto> [None]]\<rparr> ''BuyPrice'' 0 = Some (19 / 2) \<and>
   value_at (default_price \<lparr>bars_O = [(0, Some 10), (1, Some 11)]\<rparr>) 0 = Some 11 \<and>
   trade_price (Some \<lparr>findex = [0], fcols = [''BuyPrice'' \<mapsto> [Some (19 / 2)], ''SellPrice'' \<mapsto> [None],
              ''ShortPrice'' \<mapsto> [None], ''CoverPrice'' \<mapsto> [None]]\<rparr>) \<lparr>findex = [0], fcols = [''Buy'' \<mapsto> [True], ''Sell'' \<mapsto> [True],
              ''Short'' \<mapsto> [False], ''Cover'' \<mapsto> [False]]\<rparr> \<lparr>bars_O = [(0, Some 10), (1, Some 11)]\<rparr> = Inr [(0, Some 11), (1, None)]"
  by (simp add: price_eval)

text \<open>
  Claim C5, as amended. When several pairs have a true signal at a timestamp, the pair
  latest in the iteration order (BuyPrice, SellPrice, ShortPrice, CoverPrice) decides:
  the resolved price is its explicit price when that is defined and the default price
  otherwise, whatever the earlier pairs assigned.
\<close>

theorem trade_price_last_pair_wins:
  assumes "trade_price (Some pr) sg b = Inr r" and "t \<in> set (findex pr)"
    and "j < length sig_mask_int"
    and "signal_at sg (sig_mask_int ! j) t"
    and "\<forall>k. j < k \<and> k < length sig_mask_int \<longrightarrow> \<not> signal_at sg (sig_mask_int ! k) t"
  shows "value_at r t =
     (case price_at pr (pr_mask_int ! j) t of
        Some v \<Rightarrow> Some v
      | None \<Rightarrow> value_at (default_price b) t)"
proof -
  from assms(3) have "j = 0 \<or> j = 1 \<or> j = 2 \<or> j = 3"
    by (auto simp: sig_mask_int_def)
  moreover have k: "\<And>k. j < k \<Longrightarrow> k < 4 \<Longrightarrow> \<not> signal_at sg (sig_mask_int ! k) t"
    using assms(5) by (simp add: sig_mask_int_def)
  ultimately show ?thesis
    using assms(2,4) k [of 1] k [of 2] k [of 3]
    unfolding trade_price_value_at [OF assms(1), of t]
    by (auto simp: sig_mask_int_def pr_mask_int_def)
qed

theorem trade_price_last_pair_wins_witness:
  "trade_price (Some \<lparr>findex = [0], fcols = [''BuyPrice'' \<mapsto> [Some (19 / 2)], ''SellPrice'' \<mapsto> [Some 8],
              ''ShortPrice'' \<mapsto> [None], ''CoverPrice'' \<mapsto> [None]]\<rparr>) \<lparr>findex = [0], fcols = [''Buy'' \<mapsto> [True], ''Sell'' \<mapsto> [True],
              ''Short'' \<mapsto> [False], ''Cover'' \<mapsto> [False]]\<rparr> \<lparr>bars_O = [(0, Some 10), (1, Some 11)]\<rparr> = Inr [(0, Some 8), (1, None)] \<and>
   signal_at \<lparr>findex = [0], fcols = [''Buy'' \<mapsto> [True], ''Sell'' \<mapsto> [True],
              ''Short'' \<mapsto> [False], ''Cover'' \<mapsto> [False]]\<rparr> (sig_mask_int ! 0) 0 \<and>
   signal_at \<lparr>findex = [0], fcols = [''Buy'' \<mapsto> [True], ''Sell'' \<mapsto> [True],
              ''Short'' \<mapsto> [False], ''Cover'' \<mapsto> [False]]\<rparr> (sig_mask_int ! 1) 0 \<and>
   price_at \<lparr>findex = [0], fcols = [''BuyPrice'' \<mapsto> [Some (19 / 2)], ''SellPrice'' \<mapsto> [Some 8],
              ''ShortPrice'' \<mapsto> [None], ''CoverPrice'' \<mapsto> [None]]\<rparr> (pr_mask_int ! 0) 0 = Some (19 / 2) \<and>
   value_at [(0, Some 8), (1, None :: fval)] 0 = Some 8"
proof -
  let ?P = "\<lparr>findex = [0], fcols = [''BuyPrice'' \<mapsto> [Some (19 / 2)], ''SellPrice'' \<mapsto> [Some 8],
              ''ShortPrice'' \<mapsto> [None], ''CoverPrice'' \<mapsto> [None]]\<rparr>"
  let ?S = "\<lparr>findex = [0], fcols = [''Buy'' \<mapsto> [True], ''Sell'' \<mapsto> [True],
              ''Short'' \<mapsto> [False], ''Cover'' \<mapsto> [False]]\<rparr>"
  let ?B = "\<lparr>bars_O = [(0, Some 10), (1, Some 11)]\<rparr>"
  let ?R = "[(0::nat, Some 8), (1, None :: fval)]"
  have ret: "trade_price (Some ?P) ?S ?B = Inr ?R" by (simp add: price_eval)
  have t: "0 \<in> set (findex ?P)" by simp
  have j: "1 < length sig_mask_int" by (simp add: sig_mask_int_def)
  have s0: "signal_at ?S (sig_mask_int ! 0) 0" by (simp add: price_eval)
  have s1: "signal_at ?S (sig_mask_int ! 1) 0" by (simp add: price_eval)
  have later: "\<forall>k. 1 < k \<and> k < length sig_mask_int \<longrightarrow> \<not> signal_at ?S (sig_mask_int ! k) 0"
  proof (intro allI impI)
    fix k assume "1 < k \<and> k < length sig_mask_int"
    then have "k = 2 \<or> k = 3" by (auto simp: sig_mask_int_def)
    then show "\<not> signal_at ?S (sig_mask_int ! k) 0" by (auto simp: price_eval)
  qed
  have p0: "price_at ?P (pr_mask_int ! 0) 0 = Some (19 / 2)" by (simp add: price_eval)
  have "value_at ?R 0 = (case price_at ?P (pr_mask_int ! 1) 0 of
        Some v \<Rightarrow> Some v | None \<Rightarrow> value_at (default_price ?B) 0)"
    by (rule trade_price_last_pair_wins [OF ret t j s1 later])
  then have v: "value_at ?R 0 = Some 8" by (simp add: price_eval)
  show ?thesis using ret s0 s1 p0 v by (intro conjI)
qed

text \<open>
  The claim C5 as stated fails: Buy and Sell are both true, with explicit prices 9.5 and
  8; the resolved price is 8, the price of the later pair.
\<close>

theorem trade_price_first_pair_overwritten_counterexample:
  "signal_at \<lparr>findex = [0], fcols = [''Buy'' \<mapsto> [True], ''Sell'' \<mapsto> [True],
              ''Short'' \<mapsto> [False], ''Cover'' \<mapsto> [False]]\<rparr> ''Buy'' 0 \<and>
   signal_at \<lparr>findex = [0], fcols = [''Buy'' \<mapsto> [True], ''Sell'' \<mapsto> [True],
              ''Short'' \<mapsto> [False], ''Cover'' \<mapsto> [False]]\<rparr> ''Sell'' 0 \<and>
   price_at \<lparr>findex = [0], fcols = [''BuyPrice'' \<mapsto> [Some (19 / 2)], ''SellPrice'' \<mapsto> [Some 8],
              ''ShortPrice'' \<mapsto> [None], ''CoverPrice'' \<mapsto> [None]]\<rparr> ''BuyPrice'' 0 = Some (19 / 2) \<and>
   price_at \<lparr>findex = [0], fcols = [''BuyPrice'' \<mapsto> [Some (19 / 2)], ''SellPrice'' \<mapsto> [Some 8],
              ''ShortPrice'' \<mapsto> [None], ''CoverPrice'' \<mapsto> [None]]\<rparr> ''SellPrice'' 0 = Some 8 \<and>
   trade_price (Some \<lparr>findex = [0], fcols = [''BuyPrice'' \<mapsto> [Some (19 / 2)], ''SellPrice'' \<mapsto> [Some 8],
              ''ShortPrice'' \<mapsto> [None], ''CoverPrice'' \<mapsto> [None]]\<rparr>) \<lparr>findex = [0], fcols = [''Buy'' \<mapsto> [True], ''Sell'' \<mapsto> [True],
              ''Short'' \<mapsto> [False], ''Cover'' \<mapsto> [False]]\<rparr> \<lparr>bars_O = [(0, Some 10), (1, Some 11)]\<rparr> = Inr [(0, Some 8), (1, None)]"
  by (simp add: price_eval)

section \<open>The trade ledger\<close>

lemma length_diff_from: "length (diff_from prev xs) = length xs"
  by (induction xs arbitrary: prev) simp_all

lemma diff_from_nth_Suc:
  "Suc i < length xs \<Longrightarrow> diff_from prev xs ! Suc i = fsub (xs ! Suc i) (xs ! i)"
proof (induction xs arbitrary: prev i)
  case Nil
  then show ?case by simp
next
  case (Cons x xs)
  show ?case
  proof (cases i)
    case 0
    with Cons.prems show ?thesis by (cases xs) simp_all
  next
    case (Suc j)
    with Cons show ?thesis by simp
  qed
qed

lemma diff_hd: "xs \<noteq> [] \<Longrightarrow> diff xs ! 0 = None"
  by (cases xs) (simp_all add: diff_def fsub_def split: option.splits)

lemma trades_rows:
  "map (\<lambda>r. (ts r, pos r, price r)) (trades ps tp) = dropna (map (\<lambda>(i, p). (i, p, value_at tp i)) ps)"
proof -
  let ?t = "dropna (map (\<lambda>(i, p). (i, p, value_at tp i)) ps)"
  let ?v = "diff (map (\<lambda>(i, p, q). p) ?t)"
  have len: "length ?t = length ?v" by (simp add: diff_def length_diff_from)
  have "map (\<lambda>r. (ts r, pos r, price r)) (trades ps tp) = map fst (zip ?t ?v)"
    by (simp add: trades_def Let_def case_prod_unfold)
  also have "\<dots> = ?t" using len by (rule map_fst_zip)
  finally show ?thesis .
qed

lemma trades_vol:
  "map vol (trades ps tp) = diff (map pos (trades ps tp))"
proof -
  let ?t = "dropna (map (\<lambda>(i, p). (i, p, value_at tp i)) ps)"
  let ?v = "diff (map (\<lambda>(i, p, q). p) ?t)"
  have len: "length ?t = length ?v" by (simp add: diff_def length_diff_from)
  have "map vol (trades ps tp) = map snd (zip ?t ?v)"
    by (simp add: trades_def Let_def case_prod_unfold)
  also have "\<dots> = ?v" using len by (rule map_snd_zip)
  finally have v: "map vol (trades ps tp) = ?v" .
  have "map pos (trades ps tp) = map (\<lambda>(i, p, q). p) (map (\<lambda>r. (ts r, pos r, price r)) (trades ps tp))"
    by simp
  then have "map pos (trades ps tp) = map (\<lambda>(i, p, q). p) ?t"
    by (simp only: trades_rows)
  with v show ?thesis by simp
qed

lemma dropna_defined:
  "(i, p, q) \<in> set (dropna (map (\<lambda>(i, p). (i, p, value_at tp i)) ps)) \<Longrightarrow> p \<noteq> None \<and> q \<noteq> None \<and> q = value_at tp i \<and> (i, p) \<in> set ps"
  by (auto simp: dropna_def)

lemma trades_row_defined:
  assumes "r \<in> set (trades ps tp)"
  shows "pos r \<noteq> None \<and> price r \<noteq> None \<and> price r = value_at tp (ts r) \<and> (ts r, pos r) \<in> set ps"
proof -
  from assms have "(ts r, pos r, price r) \<in> set (map (\<lambda>r. (ts r, pos r, price r)) (trades ps tp))"
    by (simp add: image_iff) blast
  then have "(ts r, pos r, price r) \<in> set (dropna (map (\<lambda>(i, p). (i, p, value_at tp i)) ps))" by (simp only: trades_rows)
  then show ?thesis by (rule dropna_defined)
qed

text \<open>
  Claim C1. In the ledger returned by \<open>trades\<close>, the volume column is the first
  difference of the position column of the ledger itself, that is of the rows that
  survived \<open>dropna\<close>, in their order: the first row has an undefined volume, and every
  later row has volume = its position minus the position of the row before it (both
  positions are defined, since the rows survived).
\<close>

theorem trades_volume_is_diff:
  "map vol (trades ps tp) = diff (map pos (trades ps tp)) \<and>
   (trades ps tp \<noteq> [] \<longrightarrow> vol (trades ps tp ! 0) = None) \<and>
   (\<forall>i. Suc i < length (trades ps tp) \<longrightarrow>
      (\<exists>a b. pos (trades ps tp ! i) = Some a \<and> pos (trades ps tp ! Suc i) = Some b \<and>
             vol (trades ps tp ! Suc i) = Some (b - a)))"
proof (intro conjI allI impI)
  let ?L = "trades ps tp"
  show v: "map vol ?L = diff (map pos ?L)" by (rule trades_vol)
  { assume ne: "?L \<noteq> []"
    then have "vol (?L ! 0) = map vol ?L ! 0" by simp
    also have "\<dots> = None" using ne by (simp only: v) (simp add: diff_hd)
    finally show "vol (?L ! 0) = None" . }
  { fix i assume i: "Suc i < length ?L"
    then have "?L ! i \<in> set ?L" "?L ! Suc i \<in> set ?L" by simp_all
    then have "pos (?L ! i) \<noteq> None" "pos (?L ! Suc i) \<noteq> None"
      using trades_row_defined by blast+
    then obtain a b where ab: "pos (?L ! i) = Some a" "pos (?L ! Suc i) = Some b" by auto
    have "vol (?L ! Suc i) = map vol ?L ! Suc i" using i by simp
    also have "\<dots> = fsub (map pos ?L ! Suc i) (map pos ?L ! i)"
      using i by (simp only: v) (simp add: diff_def diff_from_nth_Suc)
    also have "\<dots> = Some (b - a)" using i ab by (simp add: fsub_def)
    finally show "\<exists>a b. pos (?L ! i) = Some a \<and> pos (?L ! Suc i) = Some b \<and>
             vol (?L ! Suc i) = Some (b - a)" using ab by blast }
qed


lemmas trades_eval = trades_def dropna_def diff_def fsub_def value_at_def Let_def
  default_price_def shift_back_def

theorem trades_volume_is_diff_witness:
  "trades [(0, None), (1, Some 1), (2, Some 1), (3, Some 0)]
          [(0, Some 10), (1, Some 11), (2, Some 12), (3, Some 13)] \<noteq> [] \<and>
   Suc 1 < length (trades [(0, None), (1, Some 1), (2, Some 1), (3, Some 0)]
          [(0, Some 10), (1, Some 11), (2, Some 12), (3, Some 13)]) \<and>
   vol (trades [(0, None), (1, Some 1), (2, Some 1), (3, Some 0)]
          [(0, Some 10), (1, Some 11), (2, Some 12), (3, Some 13)] ! 0) = None \<and>
   (\<exists>a b. pos (trades [(0, None), (1, Some 1), (2, Some 1), (3, Some 0)]
          [(0, Some 10), (1, Some 11), (2, Some 12), (3, Some 13)] ! 1) = Some a \<and>
      pos (trades [(0, None), (1, Some 1), (2, Some 1), (3, Some 0)]
          [(0, Some 10), (1, Some 11), (2, Some 12), (3, Some 13)] ! Suc 1) = Some b \<and>
      vol (trades [(0, None), (1, Some 1), (2, Some 1), (3, Some 0)]
          [(0, Some 10), (1, Some 11), (2, Some 12), (3, Some 13)] ! Suc 1) = Some (b - a))"
proof -
  let ?ps = "[(0, None), (1, Some 1), (2, Some 1), (3, Some (0::real))]"
  let ?tp = "[(0, Some 10), (1, Some 11), (2, Some 12), (3, Some (13::real))]"
  note T = trades_volume_is_diff [of "?ps" "?tp"]
  have ne: "trades ?ps ?tp \<noteq> []" by (simp add: trades_eval)
  have i: "Suc 1 < length (trades ?ps ?tp)" by (simp add: trades_eval)
  have 1: "vol (trades ?ps ?tp ! 0) = None"
    by (rule T [THEN conjunct2, THEN conjunct1, THEN mp, OF ne])
  have 2: "\<exists>a b. pos (trades ?ps ?tp ! 1) = Some a \<and> pos (trades ?ps ?tp ! Suc 1) = Some b \<and>
             vol (trades ?ps ?tp ! Suc 1) = Some (b - a)"
    by (rule T [THEN conjunct2, THEN conjunct2, THEN spec, THEN mp, OF i])
  show ?thesis using ne i 1 2 by (intro conjI)
qed

lemma trades_ts:
  "ts ` set (trades ps tp) = fst ` set (dropna (map (\<lambda>(i, p). (i, p, value_at tp i)) ps))"
proof -
  have "ts ` set (trades ps tp) = fst ` set (map (\<lambda>r. (ts r, pos r, price r)) (trades ps tp))"
    by (simp add: image_image)
  then show ?thesis by (simp only: trades_rows)
qed

lemma trades_ts_iff:
  "t \<in> ts ` set (trades ps tp) \<longleftrightarrow> (\<exists>p. (t, p) \<in> set ps \<and> p \<noteq> None \<and> value_at tp t \<noteq> None)"
proof
  assume "t \<in> ts ` set (trades ps tp)"
  then obtain r where "r \<in> set (trades ps tp)" "ts r = t" by auto
  then show "\<exists>p. (t, p) \<in> set ps \<and> p \<noteq> None \<and> value_at tp t \<noteq> None"
    using trades_row_defined [of r ps tp] by auto
next
  assume "\<exists>p. (t, p) \<in> set ps \<and> p \<noteq> None \<and> value_at tp t \<noteq> None"
  then obtain p where p: "(t, p) \<in> set ps" "p \<noteq> None" "value_at tp t \<noteq> None" by blast
  from p(1) have "(t, p, value_at tp t) \<in> set (map (\<lambda>(i, p). (i, p, value_at tp i)) ps)"
    by force
  with p(2,3) have "(t, p, value_at tp t) \<in> set (dropna (map (\<lambda>(i, p). (i, p, value_at tp i)) ps))"
    by (simp add: dropna_def)
  then have "t \<in> fst ` set (dropna (map (\<lambda>(i, p). (i, p, value_at tp i)) ps))"
    by force
  then show "t \<in> ts ` set (trades ps tp)" by (simp only: trades_ts)
qed

text \<open>
  Claim C2, as amended. A timestamp of the position index (labels distinct) becomes a
  ledger row if and only if both the position and the trade price are defined there:
  \<open>dropna\<close> looks at both columns, so an undefined price discards the row too.
\<close>

theorem trades_keeps_defined_rows:
  assumes "distinct (map fst ps)" and "t \<in> set (map fst ps)"
  shows "t \<in> ts ` set (trades ps tp) \<longleftrightarrow> value_at ps t \<noteq> None \<and> value_at tp t \<noteq> None"
proof -
  have "value_at ps t \<noteq> None \<longleftrightarrow> (\<exists>p. map_of ps t = Some p \<and> p \<noteq> None)"
    by (simp add: value_at_def split: option.splits)
  also have "\<dots> \<longleftrightarrow> (\<exists>p. (t, p) \<in> set ps \<and> p \<noteq> None)"
    using assms(1) by simp
  finally show ?thesis by (auto simp: trades_ts_iff)
qed

theorem trades_keeps_defined_rows_witness:
  "distinct (map fst [(0::nat, None), (1, Some 1), (2, Some (1::real))]) \<and>
   1 \<in> set (map fst [(0::nat, None), (1, Some 1), (2, Some (1::real))]) \<and>
   1 \<in> ts ` set (trades [(0, None), (1, Some 1), (2, Some 1)]
                        [(0, Some 10), (1, Some 11), (2, None)])"
proof -
  let ?ps = "[(0::nat, None), (1, Some 1), (2, Some (1::real))]"
  let ?tp = "[(0::nat, Some 10), (1, Some 11), (2, None :: fval)]"
  have d: "distinct (map fst ?ps)" by simp
  have m: "1 \<in> set (map fst ?ps)" by simp
  have v: "value_at ?ps 1 \<noteq> None \<and> value_at ?tp 1 \<noteq> None" by (simp add: value_at_def)
  have "1 \<in> ts ` set (trades ?ps ?tp)"
    using trades_keeps_defined_rows [OF d m, of "?tp"] v by (rule iffD2)
  with d m show ?thesis by (intro conjI)
qed

text \<open>
  The claim C2 as stated fails: with four bars and next-bar-open pricing the position at
  the last timestamp is defined (0), and yet the timestamp is no ledger row.
\<close>

theorem trades_drops_defined_position_counterexample:
  "value_at [(0, Some 1), (1, Some 1), (2, Some 0), (3, Some (0::real))] 3 = Some 0 \<and>
   3 \<notin> ts ` set (trades [(0, Some 1), (1, Some 1), (2, Some 0), (3, Some 0)]
        (default_price \<lparr>bars_O = [(0, Some 9), (1, Some 10), (2, Some 11), (3, Some 12)]\<rparr>))"
  by (simp add: trades_eval)

lemma shift_back_at_last:
  assumes "s \<noteq> []" and "distinct (map fst s)"
  shows "value_at (shift_back s) (fst (last s)) = None"
proof -
  let ?ks = "map fst s" and ?vs = "tl (map snd s) @ [None]"
  let ?n = "length s - Suc 0"
  have len: "length ?ks = length ?vs" using assms(1) by (cases s) simp_all
  have n: "?n < length ?vs" using assms(1) by (cases s) simp_all
  have k: "?ks ! ?n = fst (last s)" using assms(1) by (simp add: last_conv_nth)
  have v: "?vs ! ?n = None" using assms(1) by (cases s) (simp_all add: nth_append)
  have "map_of (zip ?ks ?vs) (?ks ! ?n) = Some (?vs ! ?n)"
    using len assms(2) n by (rule map_of_zip_nth)
  then have "map_of (shift_back s) (fst (last s)) = Some None"
    by (simp only: shift_back_def k v)
  then show ?thesis by (simp add: value_at_def)
qed

text \<open>
  Claim C10. Every ledger row has a defined price, the trade price at its timestamp; a
  timestamp whose trade price is undefined is no ledger row, whatever the position is.
  In particular, with no prices table the trade price is the next-bar open, undefined at
  the last bar of the bars table (labels distinct), which therefore never is a ledger row.
\<close>

theorem trades_price_defined:
  "(\<forall>r \<in> set (trades ps tp). price r \<noteq> None \<and> price r = value_at tp (ts r)) \<and>
   (\<forall>t. value_at tp t = None \<longrightarrow> t \<notin> ts ` set (trades ps tp)) \<and>
   (bars_O b \<noteq> [] \<and> distinct (map fst (bars_O b)) \<longrightarrow>
      (\<exists>dp. trade_price None signals b = Inr dp \<and>
            fst (last (bars_O b)) \<notin> ts ` set (trades ps dp)))"
proof -
  have 1: "\<forall>r \<in> set (trades ps tp). price r \<noteq> None \<and> price r = value_at tp (ts r)"
    using trades_row_defined by blast
  have 2: "\<forall>t. value_at tp t = None \<longrightarrow> t \<notin> ts ` set (trades ps tp)"
    by (simp add: trades_ts_iff)
  have 3: "bars_O b \<noteq> [] \<and> distinct (map fst (bars_O b)) \<longrightarrow>
      (\<exists>dp. trade_price None signals b = Inr dp \<and>
            fst (last (bars_O b)) \<notin> ts ` set (trades ps dp))"
  proof
    assume "bars_O b \<noteq> [] \<and> distinct (map fst (bars_O b))"
    then have "value_at (shift_back (bars_O b)) (fst (last (bars_O b))) = None"
      by (simp add: shift_back_at_last)
    then have "fst (last (bars_O b)) \<notin> ts ` set (trades ps (shift_back (bars_O b)))"
      by (simp add: trades_ts_iff)
    then show "\<exists>dp. trade_price None signals b = Inr dp \<and>
            fst (last (bars_O b)) \<notin> ts ` set (trades ps dp)"
      by (simp add: trade_price_def)
  qed
  show ?thesis using 1 2 3 by (intro conjI)
qed

theorem trades_price_defined_witness:
  "bars_O \<lparr>bars_O = [(0, Some 9), (1, Some 10), (2, Some 11), (3, Some 12)]\<rparr> \<noteq> [] \<and>
   distinct (map fst (bars_O \<lparr>bars_O = [(0, Some 9), (1, Some 10), (2, Some 11), (3, Some 12)]\<rparr>)) \<and>
   trades [(0, Some 1), (1, Some 1), (2, Some 0), (3, Some 0)]
          [(0, Some 10), (1, Some 11), (2, Some 12), (3, None)] \<noteq> [] \<and>
   price (hd (trades [(0, Some 1), (1, Some 1), (2, Some 0), (3, Some 0)]
                     [(0, Some 10), (1, Some 11), (2, Some 12), (3, None)])) \<noteq> None \<and>
   value_at [(0, Some 10), (1, Some 11), (2, Some 12), (3, None :: fval)] 3 = None \<and>
   3 \<notin> ts ` set (trades [(0, Some 1), (1, Some 1), (2, Some 0), (3, Some 0)]
                        [(0, Some 10), (1, Some 11), (2, Some 12), (3, None)]) \<and>
   (\<exists>dp. trade_price None \<lparr>findex = [], fcols = Map.empty\<rparr>
              \<lparr>bars_O = [(0, Some 9), (1, Some 10), (2, Some 11), (3, Some 12)]\<rparr> = Inr dp \<and>
         3 \<notin> ts ` set (trades [(0, Some 1), (1, Some 1), (2, Some 0), (3, Some 0)] dp))"
proof -
  let ?b = "\<lparr>bars_O = [(0, Some 9), (1, Some 10), (2, Some 11), (3, Some (12::real))]\<rparr>"
  let ?ps = "[(0::nat, Some 1), (1, Some 1), (2, Some 0), (3, Some (0::real))]"
  let ?tp = "[(0::nat, Some 10), (1, Some 11), (2, Some 12), (3, None :: fval)]"
  let ?sg = "\<lparr>findex = [], fcols = Map.empty\<rparr> :: bool frame"
  note T = trades_price_defined [of "?ps" "?tp" "?b" "?sg"]
  have h: "bars_O ?b \<noteq> [] \<and> distinct (map fst (bars_O ?b))" by simp
  have ne: "trades ?ps ?tp \<noteq> []" by (simp add: trades_eval)
  have v: "value_at ?tp 3 = None" by (simp add: value_at_def)
  have "hd (trades ?ps ?tp) \<in> set (trades ?ps ?tp)" using ne by (rule hd_in_set)
  then have 1: "price (hd (trades ?ps ?tp)) \<noteq> None"
    using T [THEN conjunct1] by blast
  have 2: "3 \<notin> ts ` set (trades ?ps ?tp)"
    by (rule T [THEN conjunct2, THEN conjunct1, THEN spec, THEN mp, OF v])
  have "\<exists>dp. trade_price None ?sg ?b = Inr dp \<and> fst (last (bars_O ?b)) \<notin> ts ` set (trades ?ps dp)"
    by (rule T [THEN conjunct2, THEN conjunct2, THEN mp, OF h])
  then have 3: "\<exists>dp. trade_price None ?sg ?b = Inr dp \<and> 3 \<notin> ts ` set (trades ?ps dp)"
    by simp
  show ?thesis using h ne v 1 2 3 by (intro conjI) simp_all
qed

section \<open>The position reconstructor\<close>

lemmas step_defs = step_def on_cover_def on_buy_def on_sell_def on_short_def

lemma positions_reconstruct:
  assumes "getcol sg ''Buy'' = Inr bs" and "getcol sg ''Sell'' = Inr ss"
    and "getcol sg ''Short'' = Inr shs" and "getcol sg ''Cover'' = Inr cs"
  shows "positions sg =
           Inr (zip (findex sg)
                  (reconstruct (Flat, False)
                     (signal_rows (map snd bs) (map snd ss) (map snd shs) (map snd cs))))"
  using assms by (simp add: positions_def signals_to_positions_def)

lemma reconstruct_length: "length (reconstruct st rows) = length rows"
  by (induction rows arbitrary: st) simp_all

lemma reconstruct_nth:
  "i < length rows \<Longrightarrow>
   reconstruct st rows ! i = position_value (foldl step st (take (Suc i) rows))"
proof (induction rows arbitrary: st i)
  case Nil
  then show ?case by simp
next
  case (Cons r rows)
  then show ?case by (cases i) simp_all
qed

lemma step_untraded:
  assumes "st = (Flat, False)"
  shows "step st r = (if buy r \<or> short r then step st r else st)"
    and "snd (step st r) \<longleftrightarrow> buy r \<or> short r"
  using assms by (auto simp: step_defs)

lemma step_traded: "snd st \<Longrightarrow> snd (step st r)"
  by (auto simp: step_defs)

lemma foldl_step_traded: "snd st \<Longrightarrow> snd (foldl step st rows)"
  by (induction rows arbitrary: st) (simp_all add: step_traded)

lemma foldl_step_flag:
  "snd (foldl step (Flat, False) rows) \<longleftrightarrow> (\<exists>r \<in> set rows. buy r \<or> short r)"
proof (induction rows)
  case Nil
  then show ?case by simp
next
  case (Cons r rows)
  show ?case
  proof (cases "buy r \<or> short r")
    case True
    then have "snd (step (Flat, False) r)" by (simp add: step_untraded(2))
    then have "snd (foldl step (step (Flat, False) r) rows)" by (rule foldl_step_traded)
    with True show ?thesis by auto
  next
    case False
    then have "step (Flat, False) r = (Flat, False)" by (auto simp: step_defs)
    with False Cons show ?thesis by simp
  qed
qed

lemma set_take_Suc_conv:
  assumes "i < length xs"
  shows "(\<exists>x \<in> set (take (Suc i) xs). P x) \<longleftrightarrow> (\<exists>j \<le> i. P (xs ! j))"
proof
  assume "\<exists>x \<in> set (take (Suc i) xs). P x"
  then obtain x where "x \<in> set (take (Suc i) xs)" "P x" by blast
  then obtain j where "j < length (take (Suc i) xs)" "take (Suc i) xs ! j = x"
    by (auto simp: in_set_conv_nth)
  then have "j \<le> i" "xs ! j = x" using assms by simp_all
  with \<open>P x\<close> show "\<exists>j \<le> i. P (xs ! j)" by blast
next
  assume "\<exists>j \<le> i. P (xs ! j)"
  then obtain j where j: "j \<le> i" "P (xs ! j)" by blast
  then have "j < length (take (Suc i) xs)" using assms by simp
  then have "take (Suc i) xs ! j \<in> set (take (Suc i) xs)" by (rule nth_mem)
  moreover have "take (Suc i) xs ! j = xs ! j" using j(1) by simp
  ultimately show "\<exists>x \<in> set (take (Suc i) xs). P x" using j(2) by auto
qed

lemma traded_iff:
  assumes "i < length rows"
  shows "snd (foldl step (Flat, False) (take (Suc i) rows))
         \<longleftrightarrow> (\<exists>j \<le> i. buy (rows ! j) \<or> short (rows ! j))"
  unfolding foldl_step_flag using assms by (rule set_take_Suc_conv)

text \<open>
  Claim C7. In the state machine started in (Flat, no transition yet), a transition has
  happened by bar \<open>i\<close> exactly when Buy or Short was true at some bar up to \<open>i\<close> (from Flat,
  Sell and Cover do not apply). The position at bar \<open>i\<close> is undefined exactly when no such
  bar exists, that is at every bar before the first transition; from the first transition
  on it is +1 while the state is Long, -1 while Short and 0 while Flat.
\<close>

theorem positions_undefined_before_first_transition:
  assumes "i < length rows"
  shows "(snd (foldl step (Flat, False) (take (Suc i) rows))
            \<longleftrightarrow> (\<exists>j \<le> i. buy (rows ! j) \<or> short (rows ! j))) \<and>
         (reconstruct (Flat, False) rows ! i = None
            \<longleftrightarrow> (\<forall>j \<le> i. \<not> buy (rows ! j) \<and> \<not> short (rows ! j))) \<and>
         ((\<exists>j \<le> i. buy (rows ! j) \<or> short (rows ! j)) \<longrightarrow>
            reconstruct (Flat, False) rows ! i =
              Some (case fst (foldl step (Flat, False) (take (Suc i) rows)) of
                      Flat \<Rightarrow> 0 | Long \<Rightarrow> 1 | Short \<Rightarrow> - 1))"
proof -
  let ?st = "foldl step (Flat, False) (take (Suc i) rows)"
  have flag: "snd ?st \<longleftrightarrow> (\<exists>j \<le> i. buy (rows ! j) \<or> short (rows ! j))"
    using assms by (rule traded_iff)
  have val: "reconstruct (Flat, False) rows ! i = position_value ?st"
    using assms by (rule reconstruct_nth)
  have none: "reconstruct (Flat, False) rows ! i = None
            \<longleftrightarrow> (\<forall>j \<le> i. \<not> buy (rows ! j) \<and> \<not> short (rows ! j))"
    unfolding val using flag by (auto simp: position_value_def)
  have some: "(\<exists>j \<le> i. buy (rows ! j) \<or> short (rows ! j)) \<longrightarrow>
            reconstruct (Flat, False) rows ! i =
              Some (case fst ?st of Flat \<Rightarrow> 0 | Long \<Rightarrow> 1 | Short \<Rightarrow> - 1)"
    unfolding val using flag by (simp add: position_value_def state_value_def)
  show ?thesis using flag none some by (intro conjI)
qed


text \<open>Two neighbouring rows of the positions that both survive are neighbours in the ledger.\<close>

lemma trades_adjacent:
  assumes i: "Suc i < length ps"
    and r1: "ps ! i = (t1, Some a)" and r2: "ps ! Suc i = (t2, Some b)"
    and q1: "value_at tp t1 \<noteq> None" and q2: "value_at tp t2 \<noteq> None"
  shows "\<exists>k. Suc k < length (trades ps tp) \<and> ts (trades ps tp ! k) = t1 \<and>
             ts (trades ps tp ! Suc k) = t2 \<and> pos (trades ps tp ! Suc k) = Some b \<and>
             vol (trades ps tp ! Suc k) = Some (b - a)"
proof -
  let ?f = "\<lambda>(i, p). (i, p, value_at tp i)"
  let ?L = "trades ps tp"
  let ?A = "dropna (map ?f (take i ps))"
  let ?B = "dropna (map ?f (drop (Suc (Suc i)) ps))"
  let ?k = "length ?A"
  have "ps = take i ps @ ps ! i # drop (Suc i) ps"
    using i by (simp add: id_take_nth_drop [symmetric])
  also have "drop (Suc i) ps = ps ! Suc i # drop (Suc (Suc i)) ps"
    using i by (simp add: Cons_nth_drop_Suc)
  finally have ps: "ps = take i ps @ (t1, Some a) # (t2, Some b) # drop (Suc (Suc i)) ps"
    by (simp add: r1 r2)
  have "dropna (map ?f ps)
        = dropna (map ?f (take i ps @ (t1, Some a) # (t2, Some b) # drop (Suc (Suc i)) ps))"
    using ps by simp
  also have "\<dots> = ?A @ (t1, Some a, value_at tp t1) # (t2, Some b, value_at tp t2) # ?B"
    using q1 q2 by (simp add: dropna_def)
  finally have t': "map (\<lambda>r. (ts r, pos r, price r)) ?L
        = ?A @ (t1, Some a, value_at tp t1) # (t2, Some b, value_at tp t2) # ?B"
    by (simp only: trades_rows)
  then have "length (map (\<lambda>r. (ts r, pos r, price r)) ?L) = ?k + 2 + length ?B" by simp
  then have len: "Suc ?k < length ?L" by simp
  have "map (\<lambda>r. (ts r, pos r, price r)) ?L ! ?k = (t1, Some a, value_at tp t1)"
    by (simp only: t' nth_append_length)
  then have k1: "ts (?L ! ?k) = t1" "pos (?L ! ?k) = Some a" using len by simp_all
  have "map (\<lambda>r. (ts r, pos r, price r)) ?L ! Suc ?k = (t2, Some b, value_at tp t2)"
    by (simp only: t') (simp add: nth_append)
  then have k2: "ts (?L ! Suc ?k) = t2" "pos (?L ! Suc ?k) = Some b" using len by simp_all
  have "vol (?L ! Suc ?k) = map vol ?L ! Suc ?k" using len by simp
  also have "\<dots> = fsub (map pos ?L ! Suc ?k) (map pos ?L ! ?k)"
    using len by (simp only: trades_vol) (simp add: diff_def diff_from_nth_Suc)
  also have "\<dots> = Some (b - a)" using len k1 k2 by (simp add: fsub_def)
  finally have "vol (?L ! Suc ?k) = Some (b - a)" .
  with len k1 k2 show ?thesis by blast
qed

lemma long_is_traded:
  "fst (foldl step (Flat, False) rows) = Long \<Longrightarrow> snd (foldl step (Flat, False) rows)"
proof (induction rows rule: rev_induct)
  case Nil
  then show ?case by simp
next
  case (snoc r rows)
  then show ?case by (auto simp: step_defs split: if_splits)
qed

lemma step_long_buy:
  "fst st = Long \<Longrightarrow> buy r \<Longrightarrow> \<not> sell r \<Longrightarrow> \<not> short r \<Longrightarrow> step st r = st"
  by (auto simp: step_defs)

text \<open>
  Claim C8, as amended. When the state after bar \<open>i\<close> is Long and at bar \<open>i + 1\<close> Buy is
  true while neither Sell nor Short is, the state after bar \<open>i + 1\<close> is the same state (no
  transition is recorded) and the position is +1 at both bars. When moreover both bars
  have a defined trade price, so that both are ledger rows, the ledger row of bar
  \<open>i + 1\<close> has volume 0.
\<close>

theorem repeated_buy_keeps_long:
  assumes i: "Suc i < length rows"
    and long: "fst (foldl step (Flat, False) (take (Suc i) rows)) = Long"
    and sg: "buy (rows ! Suc i)" "\<not> sell (rows ! Suc i)" "\<not> short (rows ! Suc i)"
  shows "foldl step (Flat, False) (take (Suc (Suc i)) rows)
           = foldl step (Flat, False) (take (Suc i) rows) \<and>
         reconstruct (Flat, False) rows ! i = Some 1 \<and>
         reconstruct (Flat, False) rows ! Suc i = Some 1 \<and>
         (length idx = length rows \<and> value_at tp (idx ! i) \<noteq> None \<and>
          value_at tp (idx ! Suc i) \<noteq> None \<longrightarrow>
            (\<exists>k. Suc k < length (trades (zip idx (reconstruct (Flat, False) rows)) tp) \<and>
                 ts (trades (zip idx (reconstruct (Flat, False) rows)) tp ! Suc k) = idx ! Suc i \<and>
                 pos (trades (zip idx (reconstruct (Flat, False) rows)) tp ! Suc k) = Some 1 \<and>
                 vol (trades (zip idx (reconstruct (Flat, False) rows)) tp ! Suc k) = Some 0))"
proof -
  let ?s = "\<lambda>n. foldl step (Flat, False) (take n rows)"
  let ?ps = "zip idx (reconstruct (Flat, False) rows)"
  have "take (Suc (Suc i)) rows = take (Suc i) rows @ [rows ! Suc i]"
    using i by (simp add: take_Suc_conv_app_nth)
  then have "?s (Suc (Suc i)) = step (?s (Suc i)) (rows ! Suc i)" by simp
  also have "\<dots> = ?s (Suc i)" using long sg by (rule step_long_buy)
  finally have same: "?s (Suc (Suc i)) = ?s (Suc i)" .
  have "snd (?s (Suc i))" using long by (rule long_is_traded)
  then have pv: "position_value (?s (Suc i)) = Some 1"
    using long by (simp add: position_value_def state_value_def)
  have p1: "reconstruct (Flat, False) rows ! i = Some 1"
    using i pv by (simp add: reconstruct_nth)
  have p2: "reconstruct (Flat, False) rows ! Suc i = Some 1"
    using i pv same by (simp add: reconstruct_nth)
  have v: "length idx = length rows \<and> value_at tp (idx ! i) \<noteq> None \<and>
          value_at tp (idx ! Suc i) \<noteq> None \<longrightarrow>
            (\<exists>k. Suc k < length (trades ?ps tp) \<and>
                 ts (trades ?ps tp ! Suc k) = idx ! Suc i \<and>
                 pos (trades ?ps tp ! Suc k) = Some 1 \<and>
                 vol (trades ?ps tp ! Suc k) = Some 0)"
  proof
    assume h: "length idx = length rows \<and> value_at tp (idx ! i) \<noteq> None \<and>
          value_at tp (idx ! Suc i) \<noteq> None"
    then have len: "Suc i < length ?ps" using i by (simp add: reconstruct_length)
    have r1: "?ps ! i = (idx ! i, Some 1)"
      using h i p1 by (simp add: reconstruct_length)
    have r2: "?ps ! Suc i = (idx ! Suc i, Some 1)"
      using h i p2 by (simp add: reconstruct_length)
    from trades_adjacent [OF len r1 r2] h
    show "\<exists>k. Suc k < length (trades ?ps tp) \<and>
                 ts (trades ?ps tp ! Suc k) = idx ! Suc i \<and>
                 pos (trades ?ps tp ! Suc k) = Some 1 \<and>
                 vol (trades ?ps tp ! Suc k) = Some 0"
      by auto
  qed
  show ?thesis using same p1 p2 v by (intro conjI)
qed


lemmas positions_eval = positions_def signals_to_positions_def getcol_def signal_rows_def
  step_defs position_value_def state_value_def

lemmas ledger_eval = backtest_trades_def trade_price_def trades_def dropna_def diff_def fsub_def
  value_at_def shift_back_def default_price_def Let_def

theorem positions_undefined_before_first_transition_witness:
  "Suc 4 < length [\<lparr>buy = False, sell = False, short = False, cover = False\<rparr>,
          \<lparr>buy = False, sell = True, short = False, cover = False\<rparr>,
          \<lparr>buy = True, sell = False, short = False, cover = False\<rparr>,
          \<lparr>buy = False, sell = False, short = False, cover = False\<rparr>,
          \<lparr>buy = False, sell = True, short = False, cover = False\<rparr>,
          \<lparr>buy = False, sell = False, short = True, cover = False\<rparr>] \<and>
   reconstruct (Flat, False) [\<lparr>buy = False, sell = False, short = False, cover = False\<rparr>,
          \<lparr>buy = False, sell = True, short = False, cover = False\<rparr>,
          \<lparr>buy = True, sell = False, short = False, cover = False\<rparr>,
          \<lparr>buy = False, sell = False, short = False, cover = False\<rparr>,
          \<lparr>buy = False, sell = True, short = False, cover = False\<rparr>,
          \<lparr>buy = False, sell = False, short = True, cover = False\<rparr>] ! 1 = None \<and>
   reconstruct (Flat, False) [\<lparr>buy = False, sell = False, short = False, cover = False\<rparr>,
          \<lparr>buy = False, sell = True, short = False, cover = False\<rparr>,
          \<lparr>buy = True, sell = False, short = False, cover = False\<rparr>,
          \<lparr>buy = False, sell = False, short = False, cover = False\<rparr>,
          \<lparr>buy = False, sell = True, short = False, cover = False\<rparr>,
          \<lparr>buy = False, sell = False, short = True, cover = False\<rparr>] ! 4 = Some 0 \<and>
   reconstruct (Flat, False) [\<lparr>buy = False, sell = False, short = False, cover = False\<rparr>,
          \<lparr>buy = False, sell = True, short = False, cover = False\<rparr>,
          \<lparr>buy = True, sell = False, short = False, cover = False\<rparr>,
          \<lparr>buy = False, sell = False, short = False, cover = False\<rparr>,
          \<lparr>buy = False, sell = True, short = False, cover = False\<rparr>,
          \<lparr>buy = False, sell = False, short = True, cover = False\<rparr>] ! Suc 4 = Some (- 1)"
proof -
  let ?rows = "[\<lparr>buy = False, sell = False, short = False, cover = False\<rparr>,
          \<lparr>buy = False, sell = True, short = False, cover = False\<rparr>,
          \<lparr>buy = True, sell = False, short = False, cover = False\<rparr>,
          \<lparr>buy = False, sell = False, short = False, cover = False\<rparr>,
          \<lparr>buy = False, sell = True, short = False, cover = False\<rparr>,
          \<lparr>buy = False, sell = False, short = True, cover = False\<rparr>]"
  have l1: "1 < length ?rows" and l4: "4 < length ?rows" and l5: "Suc 4 < length ?rows"
    by simp_all
  note T1 = positions_undefined_before_first_transition [OF l1]
  note T4 = positions_undefined_before_first_transition [OF l4]
  note T5 = positions_undefined_before_first_transition [OF l5]
  have "\<forall>j \<le> 1. \<not> buy (?rows ! j) \<and> \<not> short (?rows ! j)"
  proof (intro allI impI)
    fix j :: nat assume "j \<le> 1"
    then have "j = 0 \<or> j = 1" by auto
    then show "\<not> buy (?rows ! j) \<and> \<not> short (?rows ! j)" by auto
  qed
  then have a: "reconstruct (Flat, False) ?rows ! 1 = None"
    by (rule T1 [THEN conjunct2, THEN conjunct1, THEN iffD2])
  have e4: "\<exists>j \<le> 4. buy (?rows ! j) \<or> short (?rows ! j)"
    by (rule exI [of _ 2]) simp
  have "reconstruct (Flat, False) ?rows ! 4 =
          Some (case fst (foldl step (Flat, False) (take (Suc 4) ?rows)) of
                  Flat \<Rightarrow> 0 | Long \<Rightarrow> 1 | Short \<Rightarrow> - 1)"
    by (rule T4 [THEN conjunct2, THEN conjunct2, THEN mp, OF e4])
  then have b: "reconstruct (Flat, False) ?rows ! 4 = Some 0"
    by (simp add: step_defs)
  have e5: "\<exists>j \<le> Suc 4. buy (?rows ! j) \<or> short (?rows ! j)"
    by (rule exI [of _ 2]) simp
  have "reconstruct (Flat, False) ?rows ! Suc 4 =
          Some (case fst (foldl step (Flat, False) (take (Suc (Suc 4)) ?rows)) of
                  Flat \<Rightarrow> 0 | Long \<Rightarrow> 1 | Short \<Rightarrow> - 1)"
    by (rule T5 [THEN conjunct2, THEN conjunct2, THEN mp, OF e5])
  then have c: "reconstruct (Flat, False) ?rows ! Suc 4 = Some (- 1)"
    by (simp add: step_defs)
  show ?thesis using l5 a b c by (intro conjI)
qed

theorem repeated_buy_keeps_long_witness:
  "fst (foldl step (Flat, False) (take (Suc 0) [\<lparr>buy = True, sell = False, short = False, cover = False\<rparr>,
          \<lparr>buy = True, sell = False, short = False, cover = False\<rparr>])) = Long \<and>
   reconstruct (Flat, False) [\<lparr>buy = True, sell = False, short = False, cover = False\<rparr>,
          \<lparr>buy = True, sell = False, short = False, cover = False\<rparr>] ! Suc 0 = Some 1 \<and>
   (\<exists>k. Suc k < length (trades (zip [0, 1] (reconstruct (Flat, False) [\<lparr>buy = True, sell = False, short = False, cover = False\<rparr>,
          \<lparr>buy = True, sell = False, short = False, cover = False\<rparr>]))
                               [(0, Some 10), (1, Some 11)]) \<and>
        ts (trades (zip [0, 1] (reconstruct (Flat, False) [\<lparr>buy = True, sell = False, short = False, cover = False\<rparr>,
          \<lparr>buy = True, sell = False, short = False, cover = False\<rparr>]))
                   [(0, Some 10), (1, Some 11)] ! Suc k) = [0, 1] ! Suc 0 \<and>
        pos (trades (zip [0, 1] (reconstruct (Flat, False) [\<lparr>buy = True, sell = False, short = False, cover = False\<rparr>,
          \<lparr>buy = True, sell = False, short = False, cover = False\<rparr>]))
                   [(0, Some 10), (1, Some 11)] ! Suc k) = Some 1 \<and>
        vol (trades (zip [0, 1] (reconstruct (Flat, False) [\<lparr>buy = True, sell = False, short = False, cover = False\<rparr>,
          \<lparr>buy = True, sell = False, short = False, cover = False\<rparr>]))
                   [(0, Some 10), (1, Some 11)] ! Suc k) = Some 0)"
proof -
  let ?rows = "[\<lparr>buy = True, sell = False, short = False, cover = False\<rparr>,
          \<lparr>buy = True, sell = False, short = False, cover = False\<rparr>]"
  let ?idx = "[0, 1 :: nat]"
  let ?tp = "[(0 :: nat, Some 10), (1, Some (11 :: real))]"
  have i: "Suc 0 < length ?rows" by simp
  have long: "fst (foldl step (Flat, False) (take (Suc 0) ?rows)) = Long"
    by (simp add: step_defs)
  have sg: "buy (?rows ! Suc 0)" "\<not> sell (?rows ! Suc 0)" "\<not> short (?rows ! Suc 0)"
    by simp_all
  note T = repeated_buy_keeps_long [OF i long sg, of "?idx" "?tp"]
  have h: "length ?idx = length ?rows \<and> value_at ?tp (?idx ! 0) \<noteq> None \<and>
           value_at ?tp (?idx ! Suc 0) \<noteq> None"
    by (simp add: value_at_def)
  have p: "reconstruct (Flat, False) ?rows ! Suc 0 = Some 1"
    by (rule T [THEN conjunct2, THEN conjunct2, THEN conjunct1])
  have v: "\<exists>k. Suc k < length (trades (zip ?idx (reconstruct (Flat, False) ?rows)) ?tp) \<and>
        ts (trades (zip ?idx (reconstruct (Flat, False) ?rows)) ?tp ! Suc k) = ?idx ! Suc 0 \<and>
        pos (trades (zip ?idx (reconstruct (Flat, False) ?rows)) ?tp ! Suc k) = Some 1 \<and>
        vol (trades (zip ?idx (reconstruct (Flat, False) ?rows)) ?tp ! Suc k) = Some 0"
    by (rule T [THEN conjunct2, THEN conjunct2, THEN conjunct2, THEN mp, OF h])
  show ?thesis using long p v by (intro conjI)
qed

text \<open>
  The claim C8 as stated fails in both of its parts. Bar 0 goes Short; bar 1 has Cover and
  Buy, which gives Long, but its trade price is undefined (the open of bar 2 is missing),
  so it is no ledger row; at bar 2 the state is already Long and only Buy is true, and the
  ledger volume there is 2, the difference to the row of bar 0. At bar 3 the state is
  Long, Buy is true together with Short and neither Sell nor Cover is: the state becomes
  Short and the position changes to -1.
\<close>

theorem repeated_buy_volume_counterexample:
  "positions \<lparr>findex = [0, 1, 2, 3],
          fcols = [''Buy'' \<mapsto> [False, True, True, True],
                   ''Sell'' \<mapsto> [False, False, False, False],
                   ''Short'' \<mapsto> [True, False, False, True],
                   ''Cover'' \<mapsto> [False, True, False, False]]\<rparr>
     = Inr [(0, Some (- 1)), (1, Some 1), (2, Some 1), (3, Some (- 1))] \<and>
   backtest_trades None \<lparr>findex = [0, 1, 2, 3],
          fcols = [''Buy'' \<mapsto> [False, True, True, True],
                   ''Sell'' \<mapsto> [False, False, False, False],
                   ''Short'' \<mapsto> [True, False, False, True],
                   ''Cover'' \<mapsto> [False, True, False, False]]\<rparr>
     \<lparr>bars_O = [(0, Some 5), (1, Some 6), (2, None), (3, Some 8), (4, Some 9)]\<rparr>
     = Inr [\<lparr>ts = 0, pos = Some (- 1), price = Some 6, vol = None\<rparr>,
            \<lparr>ts = 2, pos = Some 1, price = Some 8, vol = Some 2\<rparr>,
            \<lparr>ts = 3, pos = Some (- 1), price = Some 9, vol = Some (- 2)\<rparr>]"
  by (simp add: positions_eval ledger_eval)

section \<open>The four-bar scenario\<close>

text \<open>
  Claim C9. With buy = [T,F,F,F], sell = [F,F,T,F], short and cover false, no prices
  table, and bars whose default price at the four timestamps is [10,11,12,13] (the bars
  table then reaches at least one bar beyond the signals), the positions are [1,1,0,0],
  the trade price is the default price series, and the ledger has four rows with volumes
  [NaN, 0, -1, 0].
\<close>

theorem scenario_four_bars:
  assumes "map (value_at (default_price b)) [0, 1, 2, 3] = [Some 10, Some 11, Some 12, Some 13]"
  shows "positions \<lparr>findex = [0, 1, 2, 3],
          fcols = [''Buy'' \<mapsto> [True, False, False, False],
                   ''Sell'' \<mapsto> [False, False, True, False],
                   ''Short'' \<mapsto> [False, False, False, False],
                   ''Cover'' \<mapsto> [False, False, False, False]]\<rparr>
           = Inr [(0, Some 1), (1, Some 1), (2, Some 0), (3, Some 0)] \<and>
         trade_price None \<lparr>findex = [0, 1, 2, 3],
          fcols = [''Buy'' \<mapsto> [True, False, False, False],
                   ''Sell'' \<mapsto> [False, False, True, False],
                   ''Short'' \<mapsto> [False, False, False, False],
                   ''Cover'' \<mapsto> [False, False, False, False]]\<rparr> b = Inr (default_price b) \<and>
         backtest_trades None \<lparr>findex = [0, 1, 2, 3],
          fcols = [''Buy'' \<mapsto> [True, False, False, False],
                   ''Sell'' \<mapsto> [False, False, True, False],
                   ''Short'' \<mapsto> [False, False, False, False],
                   ''Cover'' \<mapsto> [False, False, False, False]]\<rparr> b
           = Inr [\<lparr>ts = 0, pos = Some 1, price = Some 10, vol = None\<rparr>,
                  \<lparr>ts = 1, pos = Some 1, price = Some 11, vol = Some 0\<rparr>,
                  \<lparr>ts = 2, pos = Some 0, price = Some 12, vol = Some (- 1)\<rparr>,
                  \<lparr>ts = 3, pos = Some 0, price = Some 13, vol = Some 0\<rparr>]"
proof -
  let ?sg = "\<lparr>findex = [0, 1, 2, 3],
          fcols = [''Buy'' \<mapsto> [True, False, False, False],
                   ''Sell'' \<mapsto> [False, False, True, False],
                   ''Short'' \<mapsto> [False, False, False, False],
                   ''Cover'' \<mapsto> [False, False, False, False]]\<rparr>"
  let ?ps = "[(0 :: nat, Some 1), (1, Some 1), (2, Some 0), (3, Some (0 :: real))]"
  from assms have v: "value_at (default_price b) 0 = Some 10"
    "value_at (default_price b) (Suc 0) = Some 11" "value_at (default_price b) 2 = Some 12"
    "value_at (default_price b) 3 = Some 13"
    by simp_all
  have p: "positions ?sg = Inr ?ps" by (simp add: positions_eval)
  have tp: "trade_price None ?sg b = Inr (default_price b)"
    by (simp add: trade_price_def default_price_def)
  have "trades ?ps (default_price b)
           = [\<lparr>ts = 0, pos = Some 1, price = Some 10, vol = None\<rparr>,
              \<lparr>ts = 1, pos = Some 1, price = Some 11, vol = Some 0\<rparr>,
              \<lparr>ts = 2, pos = Some 0, price = Some 12, vol = Some (- 1)\<rparr>,
              \<lparr>ts = 3, pos = Some 0, price = Some 13, vol = Some 0\<rparr>]"
    by (simp add: trades_def v dropna_def diff_def fsub_def)
  then have "backtest_trades None ?sg b
           = Inr [\<lparr>ts = 0, pos = Some 1, price = Some 10, vol = None\<rparr>,
                  \<lparr>ts = 1, pos = Some 1, price = Some 11, vol = Some 0\<rparr>,
                  \<lparr>ts = 2, pos = Some 0, price = Some 12, vol = Some (- 1)\<rparr>,
                  \<lparr>ts = 3, pos = Some 0, price = Some 13, vol = Some 0\<rparr>]"
    by (simp only: backtest_trades_def p tp sum.case)
  with p tp show ?thesis by (intro conjI)
qed

theorem scenario_four_bars_witness:
  "map (value_at (default_price \<lparr>bars_O = [(0, Some 9), (1, Some 10), (2, Some 11), (3, Some 12), (4, Some 13)]\<rparr>)) [0, 1, 2, 3]
     = [Some 10, Some 11, Some 12, Some 13] \<and>
   positions \<lparr>findex = [0, 1, 2, 3],
          fcols = [''Buy'' \<mapsto> [True, False, False, False],
                   ''Sell'' \<mapsto> [False, False, True, False],
                   ''Short'' \<mapsto> [False, False, False, False],
                   ''Cover'' \<mapsto> [False, False, False, False]]\<rparr>
     = Inr [(0, Some 1), (1, Some 1), (2, Some 0), (3, Some 0)] \<and>
   trade_price None \<lparr>findex = [0, 1, 2, 3],
          fcols = [''Buy'' \<mapsto> [True, False, False, False],
                   ''Sell'' \<mapsto> [False, False, True, False],
                   ''Short'' \<mapsto> [False, False, False, False],
                   ''Cover'' \<mapsto> [False, False, False, False]]\<rparr>
       \<lparr>bars_O = [(0, Some 9), (1, Some 10), (2, Some 11), (3, Some 12), (4, Some 13)]\<rparr>
     = Inr (default_price \<lparr>bars_O = [(0, Some 9), (1, Some 10), (2, Some 11), (3, Some 12), (4, Some 13)]\<rparr>) \<and>
   backtest_trades None \<lparr>findex = [0, 1, 2, 3],
          fcols = [''Buy'' \<mapsto> [True, False, False, False],
                   ''Sell'' \<mapsto> [False, False, True, False],
                   ''Short'' \<mapsto> [False, False, False, False],
                   ''Cover'' \<mapsto> [False, False, False, False]]\<rparr>
       \<lparr>bars_O = [(0, Some 9), (1, Some 10), (2, Some 11), (3, Some 12), (4, Some 13)]\<rparr>
     = Inr [\<lparr>ts = 0, pos = Some 1, price = Some 10, vol = None\<rparr>,
            \<lparr>ts = 1, pos = Some 1, price = Some 11, vol = Some 0\<rparr>,
            \<lparr>ts = 2, pos = Some 0, price = Some 12, vol = Some (- 1)\<rparr>,
            \<lparr>ts = 3, pos = Some 0, price = Some 13, vol = Some 0\<rparr>]"
proof -
  let ?b = "\<lparr>bars_O = [(0, Some 9), (1, Some 10), (2, Some 11), (3, Some 12), (4, Some 13)]\<rparr>"
  have h: "map (value_at (default_price ?b)) [0, 1, 2, 3]
             = [Some 10, Some 11, Some 12, Some 13]"
    by (simp add: value_at_def default_price_def shift_back_def)
  note T = scenario_four_bars [OF h]
  note 1 = T [THEN conjunct1]
  note 2 = T [THEN conjunct2, THEN conjunct1]
  note 3 = T [THEN conjunct2, THEN conjunct2]
  show ?thesis using h 1 2 3 by (intro conjI)
qed

end
